theory Spec2Isabelle
  imports Main "HOL-Library.Multiset"
begin

section \<open>Python values, exceptions and calls\<close>

text \<open>
  The decorators of \<^verbatim>\<open>Decorators.ipynb\<close> receive \<^verbatim>\<open>*args, **kwargs\<close>: arbitrary
  Python objects. The development fixes the following universe of argument and result
  values: \<^verbatim>\<open>None\<close>, the unbounded integers, strings, tuples and lists. On these values
  Python's \<^verbatim>\<open>==\<close> is structural equality, so HOL's \<open>=\<close> stands for it; tuples are
  hashable when all their elements are, lists never are. Booleans and floats, which
  Python's \<^verbatim>\<open>==\<close> identifies with the integers of the same value, are not part of the
  universe.
\<close>

datatype pyval =
    PNone
  | PInt int
  | PStr string
  | PTuple "pyval list"
  | PList "pyval list"

text \<open>
  Exceptions: \<open>TypeError\<close> (an unhashable key, a bad operand, a call that does not match
  the signature), \<open>KeyError\<close> (a missing dictionary key), \<open>RecursionError\<close> (the
  interpreter's recursion limit) and \<open>Raised v\<close> for any other exception a wrapped
  function raises itself.
\<close>

datatype pyexc = TypeError | KeyError | RecursionError | Raised pyval

text \<open>
  \<^verbatim>\<open>**kwargs\<close> is a dictionary in call order with pairwise different names: an
  association list. A Python function is a function of the positional arguments, the
  keyword arguments and the state of the program; it returns a value or raises, and leaves
  a new state.
\<close>

type_synonym kwargs = "(string \<times> pyval) list"

type_synonym 's pyfun = "pyval list \<Rightarrow> kwargs \<Rightarrow> 's \<Rightarrow> (pyexc + pyval) \<times> 's"

fun hashable :: "pyval \<Rightarrow> bool" where
  "hashable PNone = True"
| "hashable (PInt i) = True"
| "hashable (PStr s) = True"
| "hashable (PTuple vs) = list_all hashable vs"
| "hashable (PList vs) = False"

text \<open>\<^verbatim>\<open>d[k]\<close> on a dictionary: raises \<^verbatim>\<open>KeyError\<close> when the key is missing.\<close>

definition dict_getitem :: "(pyval \<rightharpoonup> pyval) \<Rightarrow> pyval \<Rightarrow> pyexc + pyval" where
  "dict_getitem d k = (case d k of None \<Rightarrow> Inl KeyError | Some v \<Rightarrow> Inr v)"

section \<open>The state of a decorated function\<close>

text \<open>
  The wrappers keep their state in function attributes: \<^verbatim>\<open>wrapper_cache.cache\<close> (a
  dictionary, initially empty), \<^verbatim>\<open>wrapper_count_calls.num_calls\<close> (initially 0). The
  lines printed by \<^verbatim>\<open>count_calls\<close> are collected in \<open>stdout\<close>; a line
  \<^verbatim>\<open>Call n of 'name'\<close> is kept as \<open>CallLine n name\<close>. The record is extensible: a wrapped
  function may have further state of its own.
\<close>

datatype out_line = CallLine int string

record state =
  cache :: "pyval \<rightharpoonup> pyval"
  num_calls :: int
  stdout :: "out_line list"

definition init_state :: state where
  "init_state = \<lparr>cache = Map.empty, num_calls = 0, stdout = []\<rparr>"

section \<open>The cache decorator\<close>

text \<open>
  \<^verbatim>\<open>cache_key = args + tuple(kwargs.items())\<close>: the positional values followed by one
  pair \<^verbatim>\<open>(name, value)\<close> for each keyword argument, in call order.
\<close>

definition kwargs_items :: "kwargs \<Rightarrow> pyval list" where
  "kwargs_items kwargs = map (\<lambda>(k, v). PTuple [PStr k, v]) kwargs"

definition cache_key :: "pyval list \<Rightarrow> kwargs \<Rightarrow> pyval" where
  "cache_key args kwargs = PTuple (args @ kwargs_items kwargs)"

text \<open>
  \<^verbatim>\<open>
  def wrapper_cache(*args, **kwargs):
      cache_key = args + tuple(kwargs.items())
      if cache_key not in wrapper_cache.cache:
          wrapper_cache.cache[cache_key] = func(*args, **kwargs)
      return wrapper_cache.cache[cache_key]
  \<close>
  The membership test hashes the key first, which raises \<^verbatim>\<open>TypeError\<close> on an
  unhashable value. In the assignment the right-hand side is evaluated before the
  dictionary is updated, so the entry is written into the cache that \<^verbatim>\<open>func\<close> left.
\<close>

definition wrapper_cache :: "'a state_scheme pyfun \<Rightarrow> 'a state_scheme pyfun" where
  "wrapper_cache func args kwargs s =
     (let key = cache_key args kwargs in
      if \<not> hashable key then (Inl TypeError, s)
      else if cache s key = None then
        (case func args kwargs s of
           (Inl e, s') \<Rightarrow> (Inl e, s')
         | (Inr v, s') \<Rightarrow>
             (let s'' = s'\<lparr>cache := (cache s')(key \<mapsto> v)\<rparr>
              in (dict_getitem (cache s'') key, s'')))
      else (dict_getitem (cache s) key, s))"

section \<open>The call counter\<close>

text \<open>
  \<^verbatim>\<open>
  def wrapper_count_calls(*args, **kwargs):
      wrapper_count_calls.num_calls += 1
      print(f"Call {wrapper_count_calls.num_calls} of {func.__name__!r}")
      return func(*args, **kwargs)
  \<close>
  \<open>name\<close> is \<^verbatim>\<open>func.__name__\<close>.
\<close>

definition wrapper_count_calls :: "string \<Rightarrow> 'a state_scheme pyfun \<Rightarrow> 'a state_scheme pyfun" where
  "wrapper_count_calls name func args kwargs s =
     (let s1 = s\<lparr>num_calls := num_calls s + 1\<rparr>;
          s2 = s1\<lparr>stdout := stdout s1 @ [CallLine (num_calls s1) name]\<rparr>
      in func args kwargs s2)"

text \<open>A function without effects, as a Python function: it returns and leaves the state.\<close>

definition pure_fun :: "(pyval list \<Rightarrow> kwargs \<Rightarrow> pyval) \<Rightarrow> 's pyfun" where
  "pure_fun f args kwargs s = (Inr (f args kwargs), s)"

text \<open>A sequence of calls of one function, each on the state the previous one left.\<close>

fun run_calls :: "'s pyfun \<Rightarrow> (pyval list \<times> kwargs) list \<Rightarrow> 's \<Rightarrow> (pyexc + pyval) list \<times> 's" where
  "run_calls g [] s = ([], s)"
| "run_calls g (c # cs) s =
     (case g (fst c) (snd c) s of
        (r, s') \<Rightarrow> (case run_calls g cs s' of (rs, s'') \<Rightarrow> (r # rs, s'')))"

text \<open>
  The entries of a cache come from \<open>f\<close> on a set \<open>D\<close> of calls: whatever is stored under the
  key of a call of \<open>D\<close> is the value of \<open>f\<close> on that call.
\<close>

definition entries_from :: "(pyval list \<Rightarrow> kwargs \<Rightarrow> pyval) \<Rightarrow> (pyval list \<times> kwargs) set \<Rightarrow> 'a state_scheme \<Rightarrow> bool" where
  "entries_from f D s \<longleftrightarrow>
     (\<forall>c\<in>D. \<forall>v. cache s (cache_key (fst c) (snd c)) = Some v \<longrightarrow> v = f (fst c) (snd c))"

section \<open>The Fibonacci example\<close>

text \<open>
  The operators of the body, on the values of the universe: \<^verbatim>\<open>num < 2\<close> and
  \<^verbatim>\<open>num - 1\<close> are defined for an integer only and raise \<^verbatim>\<open>TypeError\<close> otherwise;
  \<^verbatim>\<open>+\<close> adds integers and concatenates two strings, two tuples or two lists.
\<close>

fun py_lt_int :: "pyval \<Rightarrow> int \<Rightarrow> pyexc + bool" where
  "py_lt_int (PInt a) b = Inr (a < b)"
| "py_lt_int v b = Inl TypeError"

fun py_sub_int :: "pyval \<Rightarrow> int \<Rightarrow> pyexc + pyval" where
  "py_sub_int (PInt a) b = Inr (PInt (a - b))"
| "py_sub_int v b = Inl TypeError"

fun py_add :: "pyval \<Rightarrow> pyval \<Rightarrow> pyexc + pyval" where
  "py_add (PInt a) (PInt b) = Inr (PInt (a + b))"
| "py_add (PStr a) (PStr b) = Inr (PStr (a @ b))"
| "py_add (PTuple a) (PTuple b) = Inr (PTuple (a @ b))"
| "py_add (PList a) (PList b) = Inr (PList (a @ b))"
| "py_add v w = Inl TypeError"

text \<open>
  The signature \<^verbatim>\<open>def fibonacci(num)\<close>: one argument, positional or by the keyword
  \<^verbatim>\<open>num\<close>; any other call raises \<^verbatim>\<open>TypeError\<close>.
\<close>

fun bind_num :: "pyval list \<Rightarrow> kwargs \<Rightarrow> pyexc + pyval" where
  "bind_num [v] [] = Inr v"
| "bind_num [] [(k, v)] = (if k = ''num'' then Inr v else Inl TypeError)"
| "bind_num args kwargs = Inl TypeError"

text \<open>
  \<^verbatim>\<open>
  def fibonacci(num):
      if num < 2:
          return num
      return fibonacci(num - 1) + fibonacci(num - 2)
  \<close>
  The name \<^verbatim>\<open>fibonacci\<close> in the body is the global one, which the decorators have
  rebound to the wrapper: the body takes it as the parameter \<open>fibonacci\<close>. The left
  operand of \<^verbatim>\<open>+\<close> is evaluated first.
\<close>

definition fibonacci_body :: "'s pyfun \<Rightarrow> 's pyfun" where
  "fibonacci_body fibonacci args kwargs s =
     (case bind_num args kwargs of
        Inl e \<Rightarrow> (Inl e, s)
      | Inr num \<Rightarrow>
          (case py_lt_int num 2 of
             Inl e \<Rightarrow> (Inl e, s)
           | Inr True \<Rightarrow> (Inr num, s)
           | Inr False \<Rightarrow>
               (case py_sub_int num 1 of
                  Inl e \<Rightarrow> (Inl e, s)
                | Inr n1 \<Rightarrow>
                    (case fibonacci [n1] [] s of
                       (Inl e, s1) \<Rightarrow> (Inl e, s1)
                     | (Inr a, s1) \<Rightarrow>
                         (case py_sub_int num 2 of
                            Inl e \<Rightarrow> (Inl e, s1)
                          | Inr n2 \<Rightarrow>
                              (case fibonacci [n2] [] s1 of
                                 (Inl e, s2) \<Rightarrow> (Inl e, s2)
                               | (Inr b, s2) \<Rightarrow> (py_add a b, s2)))))))"

text \<open>
  The two decorated definitions of the notebook. The recursion goes through the global
  name, so it is bounded by the interpreter's recursion limit: \<open>fuel\<close> is the number of
  nested calls of the global \<^verbatim>\<open>fibonacci\<close> that are still allowed, and a call beyond it
  raises \<^verbatim>\<open>RecursionError\<close>.

  \<^verbatim>\<open>@count_calls def fibonacci(num)\<close>:
\<close>

primrec fibonacci_count_calls :: "nat \<Rightarrow> 'a state_scheme pyfun" where
  "fibonacci_count_calls 0 = (\<lambda>args kwargs s. (Inl RecursionError, s))"
| "fibonacci_count_calls (Suc fuel) =
     wrapper_count_calls ''fibonacci'' (fibonacci_body (fibonacci_count_calls fuel))"

text \<open>\<^verbatim>\<open>@cache @count_calls def fibonacci(num)\<close>:\<close>

primrec fibonacci_cache :: "nat \<Rightarrow> 'a state_scheme pyfun" where
  "fibonacci_cache 0 = (\<lambda>args kwargs s. (Inl RecursionError, s))"
| "fibonacci_cache (Suc fuel) =
     wrapper_cache (wrapper_count_calls ''fibonacci'' (fibonacci_body (fibonacci_cache fuel)))"

section \<open>The singleton decorator\<close>

text \<open>
  \<^verbatim>\<open>
  def singleton(cls):
      def wrapper_singleton(*args, **kwargs):
          if not wrapper_singleton.instance:
              wrapper_singleton.instance = cls(*args, **kwargs)
          return wrapper_singleton.instance
      wrapper_singleton.instance = None
      return wrapper_singleton
  \<close>
  Instances are objects with an identity: \<open>heap\<close> lists the objects that exist, and a
  reference is the position of its object there. \<open>instance\<close> is \<^verbatim>\<open>None\<close> or a reference.
  The truth value \<open>truthy\<close> of an object is its \<^verbatim>\<open>__bool__\<close>, or \<^verbatim>\<open>__len__\<close>; an object of
  a class that defines neither is true.
\<close>

record 'o singleton_state =
  heap :: "'o list"
  "instance" :: "nat option"

text \<open>
  A call \<^verbatim>\<open>cls(*args, **kwargs)\<close> returns \<^verbatim>\<open>None\<close> or a reference, or raises, and leaves
  a new heap. What it returns is up to the class: a new object, or one that exists already
  (\<^verbatim>\<open>tuple()\<close>, or a \<^verbatim>\<open>__new__\<close> that hands out a stored object).
\<close>

type_synonym 'o pyclass = "pyval list \<Rightarrow> kwargs \<Rightarrow> 'o list \<Rightarrow> (pyexc + nat option) \<times> 'o list"

text \<open>\<^verbatim>\<open>bool(x)\<close> for \<^verbatim>\<open>x\<close> either \<^verbatim>\<open>None\<close> or a reference to an object.\<close>

definition py_bool :: "('o \<Rightarrow> bool) \<Rightarrow> 'o list \<Rightarrow> nat option \<Rightarrow> bool" where
  "py_bool truthy h x = (case x of None \<Rightarrow> False | Some r \<Rightarrow> r < length h \<and> truthy (h ! r))"

text \<open>The wrapper stores what the call of the class returns, and returns what is stored.\<close>

definition wrapper_singleton ::
  "('o \<Rightarrow> bool) \<Rightarrow> 'o pyclass \<Rightarrow> pyval list \<Rightarrow> kwargs \<Rightarrow>
     'o singleton_state \<Rightarrow> (pyexc + nat option) \<times> 'o singleton_state" where
  "wrapper_singleton truthy cls args kwargs s =
     (if \<not> py_bool truthy (heap s) (instance s) then
        (case cls args kwargs (heap s) of
           (Inl e, h') \<Rightarrow> (Inl e, s\<lparr>heap := h'\<rparr>)
         | (Inr r, h') \<Rightarrow>
             (let s' = s\<lparr>heap := h', instance := r\<rparr>
              in (Inr (instance s'), s')))
      else (Inr (instance s), s))"

text \<open>A sequence of calls of the decorated class.\<close>

fun run_singleton ::
  "('o \<Rightarrow> bool) \<Rightarrow> 'o pyclass \<Rightarrow> (pyval list \<times> kwargs) list \<Rightarrow>
     'o singleton_state \<Rightarrow> (pyexc + nat option) list \<times> 'o singleton_state" where
  "run_singleton truthy cls [] s = ([], s)"
| "run_singleton truthy cls (c # cs) s =
     (case wrapper_singleton truthy cls (fst c) (snd c) s of
        (r, s') \<Rightarrow> (case run_singleton truthy cls cs s' of (rs, s'') \<Rightarrow> (r # rs, s'')))"

text \<open>The same sequence of calls of the class itself, without the decorator.\<close>

fun construct_all ::
  "'o pyclass \<Rightarrow> (pyval list \<times> kwargs) list \<Rightarrow> 'o list \<Rightarrow> (pyexc + nat option) list \<times> 'o list" where
  "construct_all cls [] h = ([], h)"
| "construct_all cls (c # cs) h =
     (case cls (fst c) (snd c) h of
        (r, h') \<Rightarrow> (case construct_all cls cs h' of (rs, h'') \<Rightarrow> (r # rs, h'')))"

text \<open>
  A class that does not define \<^verbatim>\<open>__new__\<close>, such as the notebook's \<^verbatim>\<open>class TheOne: pass\<close>:
  a call allocates a new object, with the content that \<open>init\<close> (\<^verbatim>\<open>__init__\<close>) gives it, and
  returns the reference to it.
\<close>

definition new_object :: "(pyval list \<Rightarrow> kwargs \<Rightarrow> pyexc + 'o) \<Rightarrow> 'o pyclass" where
  "new_object init args kwargs h =
     (case init args kwargs of
        Inl e \<Rightarrow> (Inl e, h)
      | Inr obj \<Rightarrow> (Inr (Some (length h)), h @ [obj]))"

section \<open>The bounded cache\<close>

text \<open>
  Modelled from the spec: the state of the bounded memoizer. The last cell of the notebook
  decorates \<^verbatim>\<open>fibonacci\<close> with \<^verbatim>\<open>functools.lru_cache(maxsize=4)\<close>, whose code is the
  standard library's and not part of the sources. The spec gives its state as the mapping
  from keys to results and a recency order over the keys: \<open>recency\<close> lists the keys of the
  mapping, the least recently used first, and \<open>touch\<close> makes a key the most recently used
  one.
\<close>

record lru_state = state +
  recency :: "pyval list"

text \<open>Modelled from the spec: a new memoizer has no entries.\<close>

definition init_lru_state :: lru_state where
  "init_lru_state = \<lparr>cache = Map.empty, num_calls = 0, stdout = [], recency = []\<rparr>"

text \<open>Modelled from the spec: recency is updated on every access.\<close>

definition touch :: "pyval \<Rightarrow> pyval list \<Rightarrow> pyval list" where
  "touch key keys = removeAll key keys @ [key]"

text \<open>
  Modelled from the spec: the bounded variant of the memoizer, \<^verbatim>\<open>functools.lru_cache\<close>,
  is not part of the sources. The spec's algorithm: build the key; on a hit return the
  stored result; on a miss compute the result, store it and return it, and when the number
  of entries then exceeds \<open>maxsize\<close> evict the least recently used entry; every access (a
  hit or the insertion of a miss) makes its key the most recently used one. An argument that
  cannot be used in a key fails before anything is computed, and a failure of the wrapped
  function is propagated and not stored.
\<close>

definition lru_wrapper :: "nat \<Rightarrow> 'a lru_state_scheme pyfun \<Rightarrow> 'a lru_state_scheme pyfun" where
  "lru_wrapper maxsize func args kwargs s =
     (let key = cache_key args kwargs in
      if \<not> hashable key then (Inl TypeError, s)
      else
        (case cache s key of
           Some r \<Rightarrow> (Inr r, s\<lparr>recency := touch key (recency s)\<rparr>)
         | None \<Rightarrow>
             (case func args kwargs s of
                (Inl e, s') \<Rightarrow> (Inl e, s')
              | (Inr v, s') \<Rightarrow>
                  (let s1 = s'\<lparr>cache := (cache s')(key \<mapsto> v),
                               recency := touch key (recency s')\<rparr>
                   in if maxsize < length (recency s1)
                      then (Inr v, s1\<lparr>cache := (cache s1)(hd (recency s1) := None),
                                      recency := tl (recency s1)\<rparr>)
                      else (Inr v, s1)))))"

section \<open>Hits and misses\<close>

text \<open>
  The two paths of \<open>wrapper_cache\<close> on a hashable key. A hit returns the stored result and
  leaves the state; a miss calls the wrapped function once and stores what it returns.
\<close>

lemma cache_hit:
  "hashable (cache_key args kwargs) \<Longrightarrow> cache s (cache_key args kwargs) = Some v \<Longrightarrow>
     wrapper_cache func args kwargs s = (Inr v, s)"
  by (simp add: wrapper_cache_def dict_getitem_def)

lemma cache_miss:
  "hashable (cache_key args kwargs) \<Longrightarrow> cache s (cache_key args kwargs) = None \<Longrightarrow>
     wrapper_cache func args kwargs s =
       (case func args kwargs s of
          (Inl e, s') \<Rightarrow> (Inl e, s')
        | (Inr v, s') \<Rightarrow> (Inr v, s'\<lparr>cache := (cache s')(cache_key args kwargs \<mapsto> v)\<rparr>))"
  by (simp add: wrapper_cache_def dict_getitem_def Let_def split: prod.splits sum.splits)

lemma cache_returns_stored:
  assumes "wrapper_cache func args kwargs s = (Inr v, s1)"
  shows "hashable (cache_key args kwargs) \<and> cache s1 (cache_key args kwargs) = Some v"
proof -
  have h: "hashable (cache_key args kwargs)"
    using assms by (auto simp: wrapper_cache_def Let_def split: if_splits)
  show ?thesis
  proof (cases "cache s (cache_key args kwargs)")
    case None
    with h assms show ?thesis
      by (auto simp: cache_miss split: prod.splits sum.splits)
  next
    case (Some w)
    with h assms show ?thesis
      by (simp add: cache_hit)
  qed
qed

lemma cache_counts_once:
  assumes frame: "\<forall>a k t. num_calls (snd (func a k t)) = num_calls t"
    and first: "wrapper_cache (wrapper_count_calls name func) args kwargs s = (r, s1)"
  shows "num_calls s1 \<le> num_calls s + 1"
proof (cases "hashable (cache_key args kwargs)")
  case False
  with first show ?thesis by (simp add: wrapper_cache_def)
next
  case h: True
  show ?thesis
  proof (cases "cache s (cache_key args kwargs)")
    case (Some w)
    with h first show ?thesis by (simp add: cache_hit)
  next
    case None
    let ?t = "s\<lparr>num_calls := num_calls s + 1,
                 stdout := stdout s @ [CallLine (num_calls s + 1) name]\<rparr>"
    have "num_calls (snd (func args kwargs ?t)) = num_calls s + 1"
      using frame by simp
    with h None first show ?thesis
      by (auto simp: cache_miss wrapper_count_calls_def Let_def split: prod.splits sum.splits)
  qed
qed

text \<open>
  C2. Whenever a call of the memoized function returns, calling it twice with these
  arguments returns the same result both times, and the second call leaves the state as the
  first left it: it is a hit, served without an invocation, whatever function the wrapper
  wraps. With the call counter of \<^verbatim>\<open>count_calls\<close> on a function that does not touch
  the counter itself, the two calls together count at most one invocation.
\<close>

theorem second_call_served_from_cache:
  assumes first: "wrapper_cache (wrapper_count_calls name func) args kwargs s = (Inr v, s1)"
  shows "run_calls (wrapper_cache (wrapper_count_calls name func))
           [(args, kwargs), (args, kwargs)] s = ([Inr v, Inr v], s1) \<and>
         (\<forall>g. wrapper_cache g args kwargs s1 = (Inr v, s1)) \<and>
         ((\<forall>a k t. num_calls (snd (func a k t)) = num_calls t) \<longrightarrow>
            num_calls s1 \<le> num_calls s + 1)"
proof -
  have hit: "wrapper_cache g args kwargs s1 = (Inr v, s1)" for g
    using cache_returns_stored [OF first] by (simp add: cache_hit)
  have "num_calls s1 \<le> num_calls s + 1"
    if "\<forall>a k t. num_calls (snd (func a k t)) = num_calls t"
    using that first by (rule cache_counts_once)
  with first hit show ?thesis
    by simp
qed

theorem second_call_served_from_cache_witness:
  "run_calls (wrapper_cache (wrapper_count_calls ''f'' (pure_fun (\<lambda>a k. PInt 7))))
     [([PInt 1], []), ([PInt 1], [])] init_state =
     ([Inr (PInt 7), Inr (PInt 7)],
      \<lparr>cache = [PTuple [PInt 1] \<mapsto> PInt 7], num_calls = 1, stdout = [CallLine 1 ''f'']\<rparr>) \<and>
   (\<forall>g. wrapper_cache g [PInt 1] []
     \<lparr>cache = [PTuple [PInt 1] \<mapsto> PInt 7], num_calls = 1, stdout = [CallLine 1 ''f'']\<rparr> =
     (Inr (PInt 7),
      \<lparr>cache = [PTuple [PInt 1] \<mapsto> PInt 7], num_calls = 1, stdout = [CallLine 1 ''f'']\<rparr>)) \<and>
   num_calls \<lparr>cache = [PTuple [PInt 1] \<mapsto> PInt 7], num_calls = 1, stdout = [CallLine 1 ''f'']\<rparr>
     \<le> num_calls init_state + 1"
proof -
  have frame: "\<forall>a k t. num_calls (snd (pure_fun (\<lambda>a k. PInt 7) a k (t::state))) = num_calls t"
    by (simp add: pure_fun_def)
  have first: "wrapper_cache (wrapper_count_calls ''f'' (pure_fun (\<lambda>a k. PInt 7))) [PInt 1] []
      init_state =
     (Inr (PInt 7),
      \<lparr>cache = [PTuple [PInt 1] \<mapsto> PInt 7], num_calls = 1, stdout = [CallLine 1 ''f'']\<rparr>)"
    by (simp add: wrapper_cache_def wrapper_count_calls_def pure_fun_def init_state_def
        cache_key_def kwargs_items_def dict_getitem_def Let_def)
  show ?thesis
    using frame second_call_served_from_cache [OF first] by blast
qed

section \<open>Error handling of the cache\<close>

lemma hashable_cache_key:
  "hashable (cache_key args kwargs) \<longleftrightarrow> list_all hashable (args @ map snd kwargs)"
  by (induction kwargs) (auto simp: cache_key_def kwargs_items_def)

text \<open>
  C5. When some argument value is unhashable (a list, or a tuple that contains one, in a
  positional or a keyword argument), the wrapper raises \<^verbatim>\<open>TypeError\<close> at once: the
  wrapped function is not invoked (the outcome is the same for every wrapped function)
  and the state is unchanged.
\<close>

theorem unhashable_fails_fast:
  "\<not> list_all hashable (args @ map snd kwargs) \<Longrightarrow>
     wrapper_cache func args kwargs s = (Inl TypeError, s) \<and>
     wrapper_cache func args kwargs s = wrapper_cache func' args kwargs s"
  by (simp add: wrapper_cache_def hashable_cache_key)

theorem unhashable_fails_fast_witness:
  "\<not> list_all hashable ([PList [PInt 1]] @ map snd [(''k'', PTuple [PNone, PList []])]) \<and>
   wrapper_cache (pure_fun (\<lambda>a k. PNone)) [PList [PInt 1]] [(''k'', PTuple [PNone, PList []])] init_state =
     (Inl TypeError, init_state) \<and>
   wrapper_cache (pure_fun (\<lambda>a k. PNone)) [PList [PInt 1]] [(''k'', PTuple [PNone, PList []])] init_state =
     wrapper_cache (wrapper_count_calls ''g'' (pure_fun (\<lambda>a k. PInt 0)))
       [PList [PInt 1]] [(''k'', PTuple [PNone, PList []])] init_state"
proof -
  have h: "\<not> list_all hashable ([PList [PInt 1]] @ map snd [(''k'', PTuple [PNone, PList []])])"
    by simp
  show ?thesis
    using h unhashable_fails_fast [OF h] by blast
qed

text \<open>
  C4. When the wrapped function is invoked (the key is hashable and not in the cache) and
  raises, the wrapper raises the same exception and leaves the state exactly as the wrapped
  function left it: nothing is stored. So, for a function that does not write the cache
  itself, the cache is unchanged and still has no entry for the key, and a later call with
  the same arguments invokes the function the wrapper then wraps, returning (and storing)
  what that invocation returns, or raising what it raises.
\<close>

theorem failure_is_not_cached:
  assumes "hashable (cache_key args kwargs)"
    and "cache s (cache_key args kwargs) = None"
    and "func args kwargs s = (Inl e, s')"
  shows "wrapper_cache func args kwargs s = (Inl e, s') \<and>
         (cache s' = cache s \<longrightarrow>
            cache (snd (wrapper_cache func args kwargs s)) = cache s \<and>
            cache (snd (wrapper_cache func args kwargs s)) (cache_key args kwargs) = None \<and>
            (\<forall>g. wrapper_cache g args kwargs s' =
               (case g args kwargs s' of
                  (Inl e', t) \<Rightarrow> (Inl e', t)
                | (Inr v, t) \<Rightarrow> (Inr v, t\<lparr>cache := (cache t)(cache_key args kwargs \<mapsto> v)\<rparr>))))"
proof -
  have propagated: "wrapper_cache func args kwargs s = (Inl e, s')"
    using assms by (simp add: cache_miss)
  have "\<forall>g. wrapper_cache g args kwargs s' =
          (case g args kwargs s' of
             (Inl e', t) \<Rightarrow> (Inl e', t)
           | (Inr v, t) \<Rightarrow> (Inr v, t\<lparr>cache := (cache t)(cache_key args kwargs \<mapsto> v)\<rparr>))"
    if "cache s' = cache s"
    using that assms(1,2) by (simp add: cache_miss)
  with propagated assms(2) show ?thesis by simp
qed


theorem failure_is_not_cached_witness:
  "hashable (cache_key [PInt 3] []) \<and> cache init_state (cache_key [PInt 3] []) = None \<and>
   wrapper_cache (\<lambda>a k t. (Inl (Raised (PStr ''boom'')), t)) [PInt 3] [] init_state =
     (Inl (Raised (PStr ''boom'')), init_state) \<and>
   cache (snd (wrapper_cache (\<lambda>a k t. (Inl (Raised (PStr ''boom'')), t)) [PInt 3] [] init_state)) =
     cache init_state \<and>
   wrapper_cache (pure_fun (\<lambda>a k. PInt 9)) [PInt 3] [] init_state =
     (Inr (PInt 9), init_state\<lparr>cache := [cache_key [PInt 3] [] \<mapsto> PInt 9]\<rparr>)"
proof -
  have h: "hashable (cache_key [PInt 3] [])"
    by (simp add: cache_key_def kwargs_items_def)
  have m: "cache init_state (cache_key [PInt 3] []) = None"
    by (simp add: init_state_def)
  have f: "(\<lambda>a k t. (Inl (Raised (PStr ''boom'')), t)) [PInt 3] [] init_state =
             (Inl (Raised (PStr ''boom'')), init_state)"
    by simp
  have "pure_fun (\<lambda>a k. PInt 9) [PInt 3] [] init_state = (Inr (PInt 9), init_state)"
    by (simp add: pure_fun_def)
  moreover have "cache init_state = Map.empty"
    by (simp add: init_state_def)
  ultimately show ?thesis
    using h m f
      failure_is_not_cached [of "[PInt 3]" "[]" init_state
        "\<lambda>a k t. (Inl (Raised (PStr ''boom'')), t)" "Raised (PStr ''boom'')" init_state]
    by (simp add: pure_fun_def)
qed

section \<open>Key construction\<close>

text \<open>
  C9. A call whose last positional argument is the tuple \<^verbatim>\<open>(name, v)\<close> and the call
  that passes \<^verbatim>\<open>name=v\<close> as a keyword argument instead are different calls with the same
  cache key. Once the first has returned, the second is served the first's result from the
  cache, whatever function is wrapped.
\<close>

theorem positional_keyword_collision:
  "(args @ [PTuple [PStr name, v]], []) \<noteq> (args, [(name, v)]) \<and>
   cache_key (args @ [PTuple [PStr name, v]]) [] = cache_key args [(name, v)] \<and>
   (\<forall>r s1. wrapper_cache func (args @ [PTuple [PStr name, v]]) [] s = (Inr r, s1) \<longrightarrow>
      (\<forall>g. wrapper_cache g args [(name, v)] s1 = (Inr r, s1)))"
proof -
  have k: "cache_key (args @ [PTuple [PStr name, v]]) [] = cache_key args [(name, v)]"
    by (simp add: cache_key_def kwargs_items_def)
  have "wrapper_cache g args [(name, v)] s1 = (Inr r, s1)"
    if "wrapper_cache func (args @ [PTuple [PStr name, v]]) [] s = (Inr r, s1)" for r s1 g
    using cache_returns_stored [OF that] by (simp add: k cache_hit)
  with k show ?thesis by simp
qed

theorem positional_keyword_collision_witness:
  "cache_key ([PInt 1] @ [PTuple [PStr ''a'', PInt 2]]) [] = cache_key [PInt 1] [(''a'', PInt 2)] \<and>
   wrapper_cache (pure_fun (\<lambda>a k. PInt (int (length a)))) ([PInt 1] @ [PTuple [PStr ''a'', PInt 2]]) [] init_state =
     (Inr (PInt 2), init_state\<lparr>cache := [PTuple [PInt 1, PTuple [PStr ''a'', PInt 2]] \<mapsto> PInt 2]\<rparr>) \<and>
   wrapper_cache (pure_fun (\<lambda>a k. PInt (int (length a)))) [PInt 1] [(''a'', PInt 2)]
       (init_state\<lparr>cache := [PTuple [PInt 1, PTuple [PStr ''a'', PInt 2]] \<mapsto> PInt 2]\<rparr>) =
     (Inr (PInt 2), init_state\<lparr>cache := [PTuple [PInt 1, PTuple [PStr ''a'', PInt 2]] \<mapsto> PInt 2]\<rparr>) \<and>
   pure_fun (\<lambda>a k. PInt (int (length a))) [PInt 1] [(''a'', PInt 2)] init_state = (Inr (PInt 1), init_state)"
proof -
  have first: "wrapper_cache (pure_fun (\<lambda>a k. PInt (int (length a)))) ([PInt 1] @ [PTuple [PStr ''a'', PInt 2]]) [] init_state =
     (Inr (PInt 2), init_state\<lparr>cache := [PTuple [PInt 1, PTuple [PStr ''a'', PInt 2]] \<mapsto> PInt 2]\<rparr>)"
    by (simp add: wrapper_cache_def pure_fun_def init_state_def cache_key_def kwargs_items_def
        dict_getitem_def Let_def)
  have "pure_fun (\<lambda>a k. PInt (int (length a))) [PInt 1] [(''a'', PInt 2)] init_state = (Inr (PInt 1), init_state)"
    by (simp add: pure_fun_def)
  then show ?thesis
    using first
      positional_keyword_collision [of "[PInt 1]" "''a''" "PInt 2"
        "pure_fun (\<lambda>a k. PInt (int (length a)))" init_state]
    by blast
qed

lemma kwargs_items_inj: "kwargs_items kwargs1 = kwargs_items kwargs2 \<longleftrightarrow> kwargs1 = kwargs2"
proof -
  have "inj (\<lambda>(k, v). PTuple [PStr k, v])"
    by (auto simp: inj_on_def)
  then show ?thesis
    unfolding kwargs_items_def by (simp add: inj_map_eq_map)
qed

lemma cache_key_eq_iff:
  "cache_key args kwargs1 = cache_key args kwargs2 \<longleftrightarrow> kwargs1 = kwargs2"
  by (simp add: cache_key_def kwargs_items_inj)

lemma cache_key_positional_eq_iff:
  "cache_key args1 [] = cache_key args2 [] \<longleftrightarrow> args1 = args2"
  by (simp add: cache_key_def kwargs_items_def)

lemma counted_pure_miss:
  assumes "hashable (cache_key args kwargs)" and "cache s (cache_key args kwargs) = None"
  shows "wrapper_cache (wrapper_count_calls name (pure_fun f)) args kwargs s =
           (Inr (f args kwargs),
            s\<lparr>num_calls := num_calls s + 1,
              stdout := stdout s @ [CallLine (num_calls s + 1) name],
              cache := (cache s)(cache_key args kwargs \<mapsto> f args kwargs)\<rparr>)"
  using assms by (simp add: cache_miss wrapper_count_calls_def pure_fun_def Let_def)

text \<open>
  C7. The key is a function of the call, and it keeps the order of the keyword arguments:
  two calls with the same positional arguments and the same keyword arguments in a
  different order have different keys. From an empty cache both are therefore misses: the
  wrapped function is invoked for each of them and the cache ends with two entries.
\<close>

theorem keyword_order_sensitive:
  assumes "mset kwargs1 = mset kwargs2" and "kwargs1 \<noteq> kwargs2"
  shows "cache_key args kwargs1 \<noteq> cache_key args kwargs2 \<and>
         (list_all hashable (args @ map snd kwargs1) \<longrightarrow>
            (case run_calls (wrapper_cache (wrapper_count_calls name (pure_fun f)))
                    [(args, kwargs1), (args, kwargs2)] init_state of
               (rs, s) \<Rightarrow>
                 rs = [Inr (f args kwargs1), Inr (f args kwargs2)] \<and>
                 num_calls s = 2 \<and>
                 cache s = [cache_key args kwargs1 \<mapsto> f args kwargs1,
                            cache_key args kwargs2 \<mapsto> f args kwargs2]))"
proof -
  have ne: "cache_key args kwargs1 \<noteq> cache_key args kwargs2"
    using assms(2) by (simp add: cache_key_eq_iff)
  have run: "run_calls (wrapper_cache (wrapper_count_calls name (pure_fun f)))
               [(args, kwargs1), (args, kwargs2)] init_state =
             ([Inr (f args kwargs1), Inr (f args kwargs2)],
              \<lparr>cache = [cache_key args kwargs1 \<mapsto> f args kwargs1,
                         cache_key args kwargs2 \<mapsto> f args kwargs2],
               num_calls = 2,
               stdout = [CallLine 1 name, CallLine 2 name]\<rparr>)"
    if h1: "list_all hashable (args @ map snd kwargs1)"
  proof -
    have "set kwargs1 = set kwargs2"
      using assms(1) by (rule mset_eq_setD)
    then have "set (map snd kwargs1) = set (map snd kwargs2)"
      by simp
    with h1 have h2: "list_all hashable (args @ map snd kwargs2)"
      unfolding list_all_iff by auto
    have k1: "hashable (cache_key args kwargs1)" and k2: "hashable (cache_key args kwargs2)"
      using h1 h2 by (simp_all add: hashable_cache_key)
    show ?thesis
      using ne ne [symmetric] by (simp add: counted_pure_miss k1 k2 init_state_def)
  qed
  show ?thesis
    using ne run by simp
qed

theorem keyword_order_sensitive_witness:
  "cache_key [PInt 0] [(''a'', PInt 1), (''b'', PInt 2)] \<noteq>
     cache_key [PInt 0] [(''b'', PInt 2), (''a'', PInt 1)] \<and>
   (case run_calls (wrapper_cache (wrapper_count_calls ''f'' (pure_fun (\<lambda>a k. PInt 5))))
           [([PInt 0], [(''a'', PInt 1), (''b'', PInt 2)]),
            ([PInt 0], [(''b'', PInt 2), (''a'', PInt 1)])] init_state of
      (rs, s) \<Rightarrow>
        rs = [Inr (PInt 5), Inr (PInt 5)] \<and>
        num_calls s = 2 \<and>
        cache s = [cache_key [PInt 0] [(''a'', PInt 1), (''b'', PInt 2)] \<mapsto> PInt 5,
                   cache_key [PInt 0] [(''b'', PInt 2), (''a'', PInt 1)] \<mapsto> PInt 5])"
proof -
  have p: "mset [(''a'', PInt 1), (''b'', PInt 2)] = mset [(''b'', PInt 2), (''a'', PInt 1)]"
    by simp
  have d: "[(''a'', PInt 1), (''b'', PInt 2)] \<noteq> [(''b'', PInt 2), (''a'', PInt 1)]"
    by simp
  have h: "list_all hashable ([PInt 0] @ map snd [(''a'', PInt 1), (''b'', PInt 2)])"
    by simp
  show ?thesis
    using h keyword_order_sensitive [OF p d, where args = "[PInt 0]" and name = "''f''"
        and f = "\<lambda>a k. PInt 5"]
    by simp
qed

section \<open>Distinct calls and transparency\<close>

text \<open>
  What the key construction does keep apart: positional-only calls with different
  arguments have different keys (\<open>cache_key_positional_eq_iff\<close>), and a call of the
  memoized function leaves the entry of every key but its own as it was.
\<close>

lemma cache_untouched_elsewhere:
  assumes "\<forall>a k t. cache (snd (func a k t)) = cache t"
    and "key \<noteq> cache_key args kwargs"
  shows "cache (snd (wrapper_cache func args kwargs s)) key = cache s key"
proof -
  have "cache (snd (func args kwargs s)) = cache s"
    using assms(1) by simp
  then show ?thesis
    using assms(2)
    by (auto simp: wrapper_cache_def Let_def split: prod.splits sum.splits)
qed

text \<open>
  On a set of calls that the key construction keeps apart, the memoized function returns
  what the wrapped function returns: every call of a sequence of such calls yields
  \<open>f\<close> of its arguments. The positional-only calls are such a set.
\<close>

lemma cache_transparent_step:
  assumes inj: "inj_on (\<lambda>c. cache_key (fst c) (snd c)) D"
    and c: "(args, kwargs) \<in> D"
    and h: "hashable (cache_key args kwargs)"
    and inv: "entries_from f D s"
  shows "fst (wrapper_cache (pure_fun f) args kwargs s) = Inr (f args kwargs) \<and>
         entries_from f D (snd (wrapper_cache (pure_fun f) args kwargs s))"
proof (cases "cache s (cache_key args kwargs)")
  case (Some v)
  with inv c have "v = f args kwargs"
    unfolding entries_from_def by fastforce
  with Some h inv show ?thesis
    by (simp add: cache_hit)
next
  case None
  have "entries_from f D (s\<lparr>cache := (cache s)(cache_key args kwargs \<mapsto> f args kwargs)\<rparr>)"
    unfolding entries_from_def
  proof (intro ballI allI impI)
    fix d v
    assume d: "d \<in> D"
      and v: "cache (s\<lparr>cache := (cache s)(cache_key args kwargs \<mapsto> f args kwargs)\<rparr>)
                (cache_key (fst d) (snd d)) = Some v"
    show "v = f (fst d) (snd d)"
    proof (cases "cache_key (fst d) (snd d) = cache_key args kwargs")
      case True
      with inj c d have "d = (args, kwargs)"
        by (auto simp: inj_on_def)
      with v show ?thesis by simp
    next
      case False
      with v inv d show ?thesis
        unfolding entries_from_def by simp
    qed
  qed
  with None h show ?thesis
    by (simp add: cache_miss pure_fun_def)
qed

lemma cache_transparent_on:
  assumes inj: "inj_on (\<lambda>c. cache_key (fst c) (snd c)) D"
  shows "set cs \<subseteq> D \<Longrightarrow> \<forall>c\<in>set cs. hashable (cache_key (fst c) (snd c)) \<Longrightarrow>
         entries_from f D s \<Longrightarrow>
         fst (run_calls (wrapper_cache (pure_fun f)) cs s) = map (\<lambda>c. Inr (f (fst c) (snd c))) cs"
proof (induction cs arbitrary: s)
  case Nil
  then show ?case by simp
next
  case (Cons c cs)
  obtain r s' where step: "wrapper_cache (pure_fun f) (fst c) (snd c) s = (r, s')"
    by (cases "wrapper_cache (pure_fun f) (fst c) (snd c) s")
  have "(fst c, snd c) \<in> D" and "hashable (cache_key (fst c) (snd c))"
    using Cons.prems by simp_all
  from cache_transparent_step [OF inj this Cons.prems(3)] step
  have r: "r = Inr (f (fst c) (snd c))" and inv': "entries_from f D s'"
    by simp_all
  have "fst (run_calls (wrapper_cache (pure_fun f)) cs s') = map (\<lambda>c. Inr (f (fst c) (snd c))) cs"
    using Cons.IH [of s'] Cons.prems inv' by simp
  with step r show ?case
    by (auto split: prod.splits)
qed

lemma cache_transparent_positional:
  assumes "\<forall>c\<in>set cs. snd c = [] \<and> list_all hashable (fst c)"
  shows "fst (run_calls (wrapper_cache (pure_fun f)) cs init_state) =
           map (\<lambda>c. Inr (f (fst c) [])) cs"
proof -
  let ?D = "{c :: pyval list \<times> kwargs. snd c = []}"
  have inj: "inj_on (\<lambda>c. cache_key (fst c) (snd c)) ?D"
    by (auto simp: inj_on_def cache_key_positional_eq_iff prod_eq_iff)
  have sub: "set cs \<subseteq> ?D"
    using assms by auto
  have hs: "\<forall>c\<in>set cs. hashable (cache_key (fst c) (snd c))"
    using assms by (simp add: hashable_cache_key)
  have inv: "entries_from f ?D init_state"
    by (simp add: entries_from_def init_state_def)
  have "fst (run_calls (wrapper_cache (pure_fun f)) cs init_state) =
          map (\<lambda>c. Inr (f (fst c) (snd c))) cs"
    using cache_transparent_on [OF inj sub hs inv] .
  also have "\<dots> = map (\<lambda>c. Inr (f (fst c) [])) cs"
    using assms by simp
  finally show ?thesis .
qed

text \<open>
  C1. Transparency fails where two different calls have one key. With
  \<^verbatim>\<open>f = lambda *args, **kwargs: len(args)\<close>, the call \<^verbatim>\<open>f(('a', 2))\<close> returns 1 and is
  cached; the call \<^verbatim>\<open>f(a=2)\<close> then returns the cached 1, whereas the wrapped function
  returns 0 on it.
\<close>

theorem cache_not_transparent:
  "fst (run_calls (wrapper_cache (pure_fun (\<lambda>args kwargs. PInt (int (length args)))))
         [([PTuple [PStr ''a'', PInt 2]], []), ([], [(''a'', PInt 2)])] init_state) =
     [Inr (PInt 1), Inr (PInt 1)] \<and>
   fst (pure_fun (\<lambda>args kwargs. PInt (int (length args))) [] [(''a'', PInt 2)] init_state) =
     Inr (PInt 0)"
  by (simp add: wrapper_cache_def pure_fun_def init_state_def cache_key_def kwargs_items_def
      dict_getitem_def Let_def)

text \<open>
  C3. Two different calls in one cache entry: \<^verbatim>\<open>f(a=2)\<close> and \<^verbatim>\<open>f(('a', 2))\<close> have the
  same key. With \<^verbatim>\<open>f = lambda *args, **kwargs: len(kwargs)\<close> under \<^verbatim>\<open>count_calls\<close>, the
  first call returns 1; the second, whose key was never stored by a call with its own
  arguments, is served that 1 without an invocation (the counter stays at 1), whereas the
  wrapped function returns 0 on it.
\<close>

theorem different_calls_one_entry:
  "([], [(''a'', PInt 2)]) \<noteq> ([PTuple [PStr ''a'', PInt 2]], []) \<and>
   cache_key [] [(''a'', PInt 2)] = cache_key [PTuple [PStr ''a'', PInt 2]] [] \<and>
   (case run_calls
           (wrapper_cache (wrapper_count_calls ''f''
              (pure_fun (\<lambda>args kwargs. PInt (int (length kwargs))))))
           [([], [(''a'', PInt 2)]), ([PTuple [PStr ''a'', PInt 2]], [])] init_state of
      (rs, s) \<Rightarrow> rs = [Inr (PInt 1), Inr (PInt 1)] \<and> num_calls s = 1) \<and>
   fst (pure_fun (\<lambda>args kwargs. PInt (int (length kwargs))) [PTuple [PStr ''a'', PInt 2]] []
          init_state) = Inr (PInt 0)"
  by (simp add: wrapper_cache_def wrapper_count_calls_def pure_fun_def init_state_def
      cache_key_def kwargs_items_def dict_getitem_def Let_def)

section \<open>Eviction in the bounded cache\<close>

lemma touch_simps:
  "touch k [] = [k]"
  "touch k (x # xs) = (if x = k then touch k xs else x # touch k xs)"
  by (simp_all add: touch_def)

text \<open>
  C8. With \<open>maxsize = 2\<close> and an empty cache, calls with three different keys \<open>A\<close>, \<open>B\<close>,
  \<open>C\<close> compute three results; after \<open>A\<close> and \<open>B\<close> both are stored, and the insertion of
  \<open>C\<close> evicts \<open>A\<close> and keeps \<open>B\<close> and \<open>C\<close>. A next call with \<open>A\<close> computes again (the call
  counter of the wrapped function goes from 3 to 4); a next call with \<open>B\<close> or with \<open>C\<close>
  instead is a hit (the counter stays at 3).
\<close>

theorem lru_eviction:
  assumes keys: "distinct [cache_key (fst A) (snd A), cache_key (fst B) (snd B), cache_key (fst C) (snd C)]"
    and hs: "hashable (cache_key (fst A) (snd A))" "hashable (cache_key (fst B) (snd B))"
      "hashable (cache_key (fst C) (snd C))"
  shows "(case run_calls (lru_wrapper 2 (wrapper_count_calls name (pure_fun f))) [A, B] init_lru_state of
            (rs, s2) \<Rightarrow>
              cache s2 (cache_key (fst A) (snd A)) = Some (f (fst A) (snd A)) \<and>
              cache s2 (cache_key (fst B) (snd B)) = Some (f (fst B) (snd B))) \<and>
         (case run_calls (lru_wrapper 2 (wrapper_count_calls name (pure_fun f))) [A, B, C] init_lru_state of
            (rs, s3) \<Rightarrow>
              rs = [Inr (f (fst A) (snd A)), Inr (f (fst B) (snd B)), Inr (f (fst C) (snd C))] \<and>
              num_calls s3 = 3 \<and>
              cache s3 (cache_key (fst A) (snd A)) = None \<and>
              cache s3 (cache_key (fst B) (snd B)) = Some (f (fst B) (snd B)) \<and>
              cache s3 (cache_key (fst C) (snd C)) = Some (f (fst C) (snd C)) \<and>
              recency s3 = [cache_key (fst B) (snd B), cache_key (fst C) (snd C)] \<and>
              (case lru_wrapper 2 (wrapper_count_calls name (pure_fun f)) (fst A) (snd A) s3 of
                 (r, s4) \<Rightarrow> r = Inr (f (fst A) (snd A)) \<and> num_calls s4 = 4) \<and>
              (case lru_wrapper 2 (wrapper_count_calls name (pure_fun f)) (fst B) (snd B) s3 of
                 (r, s4) \<Rightarrow> r = Inr (f (fst B) (snd B)) \<and> num_calls s4 = 3) \<and>
              (case lru_wrapper 2 (wrapper_count_calls name (pure_fun f)) (fst C) (snd C) s3 of
                 (r, s4) \<Rightarrow> r = Inr (f (fst C) (snd C)) \<and> num_calls s4 = 3))"
  using assms
  by (auto simp: lru_wrapper_def wrapper_count_calls_def pure_fun_def init_lru_state_def
      touch_simps Let_def)

theorem lru_eviction_witness:
  "(case run_calls (lru_wrapper 2 (wrapper_count_calls ''f'' (pure_fun (\<lambda>a k. PTuple a))))
           [([PInt 1], []), ([PInt 2], [])] init_lru_state of
      (rs, s2) \<Rightarrow>
        cache s2 (cache_key [PInt 1] []) = Some (PTuple [PInt 1]) \<and>
        cache s2 (cache_key [PInt 2] []) = Some (PTuple [PInt 2])) \<and>
   (case run_calls (lru_wrapper 2 (wrapper_count_calls ''f'' (pure_fun (\<lambda>a k. PTuple a))))
           [([PInt 1], []), ([PInt 2], []), ([PInt 3], [])] init_lru_state of
      (rs, s3) \<Rightarrow>
        rs = [Inr (PTuple [PInt 1]), Inr (PTuple [PInt 2]), Inr (PTuple [PInt 3])] \<and>
        num_calls s3 = 3 \<and>
        cache s3 (cache_key [PInt 1] []) = None \<and>
        cache s3 (cache_key [PInt 2] []) = Some (PTuple [PInt 2]) \<and>
        cache s3 (cache_key [PInt 3] []) = Some (PTuple [PInt 3]) \<and>
        recency s3 = [cache_key [PInt 2] [], cache_key [PInt 3] []] \<and>
        (case lru_wrapper 2 (wrapper_count_calls ''f'' (pure_fun (\<lambda>a k. PTuple a))) [PInt 1] [] s3 of
           (r, s4) \<Rightarrow> r = Inr (PTuple [PInt 1]) \<and> num_calls s4 = 4) \<and>
        (case lru_wrapper 2 (wrapper_count_calls ''f'' (pure_fun (\<lambda>a k. PTuple a))) [PInt 2] [] s3 of
           (r, s4) \<Rightarrow> r = Inr (PTuple [PInt 2]) \<and> num_calls s4 = 3) \<and>
        (case lru_wrapper 2 (wrapper_count_calls ''f'' (pure_fun (\<lambda>a k. PTuple a))) [PInt 3] [] s3 of
           (r, s4) \<Rightarrow> r = Inr (PTuple [PInt 3]) \<and> num_calls s4 = 3))"
proof -
  have k: "cache_key [PInt 1] [] = PTuple [PInt 1]" "cache_key [PInt 2] [] = PTuple [PInt 2]"
    "cache_key [PInt 3] [] = PTuple [PInt 3]"
    by (simp_all add: cache_key_def kwargs_items_def)
  have d: "distinct [cache_key (fst ([PInt 1], [])) (snd ([PInt 1], ([]::kwargs))),
                     cache_key (fst ([PInt 2], [])) (snd ([PInt 2], ([]::kwargs))),
                     cache_key (fst ([PInt 3], [])) (snd ([PInt 3], ([]::kwargs)))]"
    by (simp add: k)
  have h: "hashable (cache_key (fst ([PInt 1], [])) (snd ([PInt 1], ([]::kwargs))))"
    "hashable (cache_key (fst ([PInt 2], [])) (snd ([PInt 2], ([]::kwargs))))"
    "hashable (cache_key (fst ([PInt 3], [])) (snd ([PInt 3], ([]::kwargs))))"
    by (simp_all add: k)
  show ?thesis
    using lru_eviction [OF d h, where name = "''f''" and f = "\<lambda>a k. PTuple a"]
    by simp
qed

section \<open>The Fibonacci scenario\<close>

lemma fuel_10: "10 + k = Suc (Suc (Suc (Suc (Suc (Suc (Suc (Suc (Suc (Suc k)))))))))"
  by simp

lemmas fibonacci_eval =
  wrapper_cache_def wrapper_count_calls_def fibonacci_body_def init_state_def
  cache_key_def kwargs_items_def dict_getitem_def Let_def

lemma fibonacci_cache_10:
  "fibonacci_cache (10 + k) [PInt 10] [] init_state =
     (Inr (PInt 55),
      \<lparr>cache = map_of (map (\<lambda>(n, v). (PTuple [PInt n], PInt v))
         [(0, 0), (1, 1), (2, 1), (3, 2), (4, 3), (5, 5), (6, 8), (7, 13), (8, 21), (9, 34),
          (10, 55)]),
       num_calls = 11,
       stdout = map (\<lambda>i. CallLine i ''fibonacci'') [1, 2, 3, 4, 5, 6, 7, 8, 9, 10, 11]\<rparr>)"
  unfolding fuel_10
  apply (simp add: fibonacci_eval)
  apply (rule ext)
  apply simp
  done

lemma fibonacci_count_calls_10:
  "case fibonacci_count_calls (10 + k) [PInt 10] [] init_state of
     (r, s) \<Rightarrow> r = Inr (PInt 55) \<and> num_calls s = 177 \<and> length (stdout s) = 177"
  unfolding fuel_10 by (simp add: fibonacci_eval)

text \<open>
  C6. \<^verbatim>\<open>fibonacci(10)\<close> on the fresh memoized definition returns 55 after 11 invocations
  of the counted function: the counter is 11, the lines \<^verbatim>\<open>Call 1\<close> to \<^verbatim>\<open>Call 11\<close> are
  printed, and the cache holds exactly the eleven keys \<^verbatim>\<open>(0,)\<close> to \<^verbatim>\<open>(10,)\<close> with the
  Fibonacci numbers, one entry for each invocation. On the definition that only counts,
  the same call returns 55 after 177 invocations. Both hold under every recursion limit
  that allows ten nested calls or more.
\<close>

theorem fibonacci_10_scenario:
  "fibonacci_cache (10 + k) [PInt 10] [] init_state =
     (Inr (PInt 55),
      \<lparr>cache = map_of (map (\<lambda>(n, v). (PTuple [PInt n], PInt v))
         [(0, 0), (1, 1), (2, 1), (3, 2), (4, 3), (5, 5), (6, 8), (7, 13), (8, 21), (9, 34),
          (10, 55)]),
       num_calls = 11,
       stdout = map (\<lambda>i. CallLine i ''fibonacci'') [1, 2, 3, 4, 5, 6, 7, 8, 9, 10, 11]\<rparr>) \<and>
   (case fibonacci_count_calls (10 + k) [PInt 10] [] init_state of
      (r, s) \<Rightarrow> r = Inr (PInt 55) \<and> num_calls s = 177 \<and> length (stdout s) = 177)"
  using fibonacci_cache_10 fibonacci_count_calls_10 by (rule conjI)

section \<open>The singleton decorator and truth values\<close>

lemma singleton_kept:
  "py_bool truthy (heap s) (instance s) \<Longrightarrow>
     run_singleton truthy cls cs s = (replicate (length cs) (Inr (instance s)), s)"
  by (induction cs) (simp_all add: wrapper_singleton_def)

lemma singleton_constructs:
  "\<not> py_bool truthy (heap s) (instance s) \<Longrightarrow>
     wrapper_singleton truthy cls args kwargs s =
       (case cls args kwargs (heap s) of
          (Inl e, h') \<Rightarrow> (Inl e, s\<lparr>heap := h'\<rparr>)
        | (Inr r, h') \<Rightarrow> (Inr r, s\<lparr>heap := h', instance := r\<rparr>))"
  by (simp add: wrapper_singleton_def Let_def split: prod.splits sum.splits)

lemma singleton_falsy_run:
  assumes falsy: "\<forall>c\<in>set cs. \<forall>h. \<exists>r h'. cls (fst c) (snd c) h = (Inr r, h') \<and> \<not> py_bool truthy h' r"
  shows "\<not> py_bool truthy (heap s) (instance s) \<Longrightarrow>
         fst (run_singleton truthy cls cs s) = fst (construct_all cls cs (heap s)) \<and>
         heap (snd (run_singleton truthy cls cs s)) = snd (construct_all cls cs (heap s))"
  using falsy
proof (induction cs arbitrary: s)
  case Nil
  then show ?case by simp
next
  case (Cons c cs)
  from Cons.prems(2) obtain r h' where c: "cls (fst c) (snd c) (heap s) = (Inr r, h')"
    and f: "\<not> py_bool truthy h' r"
    by fastforce
  let ?s' = "s\<lparr>heap := h', instance := r\<rparr>"
  have step: "wrapper_singleton truthy cls (fst c) (snd c) s = (Inr r, ?s')"
    using Cons.prems(1) c by (simp add: singleton_constructs)
  have "\<not> py_bool truthy (heap ?s') (instance ?s')"
    using f by simp
  moreover have "\<forall>c\<in>set cs. \<forall>h. \<exists>r h'. cls (fst c) (snd c) h = (Inr r, h') \<and> \<not> py_bool truthy h' r"
    using Cons.prems(2) by simp
  ultimately have IH: "fst (run_singleton truthy cls cs ?s') = fst (construct_all cls cs (heap ?s')) \<and>
      heap (snd (run_singleton truthy cls cs ?s')) = snd (construct_all cls cs (heap ?s'))"
    by (rule Cons.IH)
  obtain rs s'' where run: "run_singleton truthy cls cs ?s' = (rs, s'')"
    by (cases "run_singleton truthy cls cs ?s'")
  obtain rs' h'' where con: "construct_all cls cs h' = (rs', h'')"
    by (cases "construct_all cls cs h'")
  from IH run con have "rs = rs'" and "heap s'' = h''"
    by simp_all
  with step run con c show ?case
    by simp
qed

lemma construct_all_new_object:
  "map (\<lambda>c. init (fst c) (snd c)) cs = map Inr objs \<Longrightarrow>
     construct_all (new_object init) cs h =
       (map (\<lambda>i. Inr (Some (length h + i))) [0..<length objs], h @ objs)"
proof (induction cs arbitrary: h objs)
  case Nil
  then show ?case by simp
next
  case (Cons c cs)
  from Cons.prems obtain obj objs' where objs: "objs = obj # objs'"
    and c: "init (fst c) (snd c) = Inr obj"
    and cs: "map (\<lambda>c. init (fst c) (snd c)) cs = map Inr objs'"
    by (cases objs) auto
  have idx: "map (\<lambda>i. Inr (Some (length h + i))) [0..<length objs] =
             Inr (Some (length h)) #
             map (\<lambda>i. (Inr (Some (length (h @ [obj]) + i)) :: pyexc + nat option)) [0..<length objs']"
    unfolding objs by (simp add: upt_rec [of 0] map_Suc_upt [symmetric] del: upt_Suc)
  show ?case
    using Cons.IH [OF cs, of "h @ [obj]"] c idx
    by (simp add: new_object_def objs)
qed

text \<open>
  C10. Calls of a singleton-decorated class, starting with no instance. When the first
  call of the class returns an object that is true, every call of the sequence returns
  that object and the heap stays as this one call of the class left it: the class was
  called once. When the class returns objects that are false, the guard calls the class
  on every call: the decorated class returns what the class itself returns, call by call.
  For a class that allocates its objects, as \<^verbatim>\<open>TheOne\<close> does, \<open>n\<close> calls then return \<open>n\<close>
  pairwise different objects.
\<close>

theorem singleton_needs_truthy_instance:
  assumes "instance s = None"
  shows "(cls (fst c) (snd c) (heap s) = (Inr r, h') \<and> py_bool truthy h' r \<longrightarrow>
            run_singleton truthy cls (c # cs) s =
              (replicate (Suc (length cs)) (Inr r), s\<lparr>heap := h', instance := r\<rparr>)) \<and>
         ((\<forall>c\<in>set cs. \<forall>h. \<exists>r h'. cls (fst c) (snd c) h = (Inr r, h') \<and> \<not> py_bool truthy h' r) \<longrightarrow>
            fst (run_singleton truthy cls cs s) = fst (construct_all cls cs (heap s)) \<and>
            heap (snd (run_singleton truthy cls cs s)) = snd (construct_all cls cs (heap s))) \<and>
         (map (\<lambda>c. init (fst c) (snd c)) cs = map Inr objs \<and> list_all (\<lambda>obj. \<not> truthy obj) objs \<longrightarrow>
            fst (run_singleton truthy (new_object init) cs s) =
              map (\<lambda>i. Inr (Some (length (heap s) + i))) [0..<length cs] \<and>
            distinct (fst (run_singleton truthy (new_object init) cs s)) \<and>
            heap (snd (run_singleton truthy (new_object init) cs s)) = heap s @ objs)"
proof -
  have none: "\<not> py_bool truthy (heap s) (instance s)"
    using assms by (simp add: py_bool_def)
  have once: "run_singleton truthy cls (c # cs) s =
      (replicate (Suc (length cs)) (Inr r), s\<lparr>heap := h', instance := r\<rparr>)"
    if "cls (fst c) (snd c) (heap s) = (Inr r, h')" and "py_bool truthy h' r"
  proof -
    let ?s' = "s\<lparr>heap := h', instance := r\<rparr>"
    have "py_bool truthy (heap ?s') (instance ?s')"
      using that(2) by simp
    from singleton_kept [OF this, of cls cs] that(1) none
    show ?thesis by (simp add: singleton_constructs)
  qed
  have every: "fst (run_singleton truthy cls cs s) = fst (construct_all cls cs (heap s)) \<and>
      heap (snd (run_singleton truthy cls cs s)) = snd (construct_all cls cs (heap s))"
    if "\<forall>c\<in>set cs. \<forall>h. \<exists>r h'. cls (fst c) (snd c) h = (Inr r, h') \<and> \<not> py_bool truthy h' r"
    using that none by (rule singleton_falsy_run)
  have fresh: "fst (run_singleton truthy (new_object init) cs s) =
        map (\<lambda>i. Inr (Some (length (heap s) + i))) [0..<length cs] \<and>
      distinct (fst (run_singleton truthy (new_object init) cs s)) \<and>
      heap (snd (run_singleton truthy (new_object init) cs s)) = heap s @ objs"
    if m: "map (\<lambda>c. init (fst c) (snd c)) cs = map Inr objs"
      and f: "list_all (\<lambda>obj. \<not> truthy obj) objs"
  proof -
    have len: "length objs = length cs"
      using m by (metis length_map)
    have falsy: "\<forall>c\<in>set cs. \<forall>h. \<exists>r h'. new_object init (fst c) (snd c) h = (Inr r, h') \<and>
        \<not> py_bool truthy h' r"
    proof (intro ballI allI)
      fix c h
      assume "c \<in> set cs"
      then have "init (fst c) (snd c) \<in> Inr ` set objs"
        using m by (metis (no_types, lifting) image_eqI set_map)
      then obtain obj where "init (fst c) (snd c) = Inr obj" and "obj \<in> set objs"
        by auto
      moreover from this f have "\<not> truthy obj"
        by (simp add: list_all_iff)
      ultimately show "\<exists>r h'. new_object init (fst c) (snd c) h = (Inr r, h') \<and> \<not> py_bool truthy h' r"
        by (simp add: new_object_def py_bool_def)
    qed
    have "inj_on (\<lambda>i. (Inr (Some (length (heap s) + i)) :: pyexc + nat option)) (set [0..<length cs])"
      by (simp add: inj_on_def)
    then have "distinct (map (\<lambda>i. (Inr (Some (length (heap s) + i)) :: pyexc + nat option)) [0..<length cs])"
      by (simp add: distinct_map)
    with singleton_falsy_run [OF falsy none] construct_all_new_object [OF m, of "heap s"] len
    show ?thesis
      by simp
  qed
  show ?thesis
    using once every fresh by blast
qed

theorem singleton_needs_truthy_instance_witness:
  "run_singleton (\<lambda>x. (0::int) < x) (new_object (\<lambda>a k. Inr (int (length a))))
      (([PNone], []) # [([], []), ([], [])]) \<lparr>heap = [], instance = None\<rparr> =
     ([Inr (Some 0), Inr (Some 0), Inr (Some 0)], \<lparr>heap = [1], instance = Some 0\<rparr>) \<and>
   fst (run_singleton (\<lambda>x. (0::int) < x) (new_object (\<lambda>a k. Inr (int (length a))))
      [([], []), ([], [])] \<lparr>heap = [], instance = None\<rparr>) =
     fst (construct_all (new_object (\<lambda>a k. Inr (int (length a)))) [([], []), ([], [])] []) \<and>
   fst (run_singleton (\<lambda>x. (0::int) < x) (new_object (\<lambda>a k. Inr (int (length a))))
      [([], []), ([], [])] \<lparr>heap = [], instance = None\<rparr>) = [Inr (Some 0), Inr (Some 1)] \<and>
   heap (snd (run_singleton (\<lambda>x. (0::int) < x) (new_object (\<lambda>a k. Inr (int (length a))))
      [([], []), ([], [])] \<lparr>heap = [], instance = None\<rparr>)) = [0, 0]"
proof -
  let ?init = "\<lambda>(a::pyval list) (k::kwargs). (Inr (int (length a)) :: pyexc + int)"
  let ?s = "\<lparr>heap = ([]::int list), instance = None\<rparr>"
  have i: "instance ?s = None"
    by simp
  have t: "new_object ?init (fst ([PNone], [])) (snd ([PNone], ([]::kwargs))) (heap ?s) =
             (Inr (Some 0), [1]) \<and> py_bool (\<lambda>x. 0 < x) [1::int] (Some 0)"
    by (simp add: new_object_def py_bool_def)
  have e: "\<forall>c\<in>set [([], []), ([], ([]::kwargs))]. \<forall>h. \<exists>r h'.
             new_object ?init (fst c) (snd c) h = (Inr r, h') \<and> \<not> py_bool (\<lambda>x. 0 < x) h' r"
    by (simp add: new_object_def py_bool_def)
  have m: "map (\<lambda>c. ?init (fst c) (snd c)) [([], []), ([], [])] = map Inr [0, 0]"
    by simp
  have f: "list_all (\<lambda>obj. \<not> (0::int) < obj) [0, 0]"
    by simp
  show ?thesis
    using t e m f
      singleton_needs_truthy_instance [OF i, where cls = "new_object ?init" and init = ?init
        and truthy = "\<lambda>x. 0 < x" and c = "([PNone], [])" and r = "Some 0" and h' = "[1]"
        and cs = "[([], []), ([], [])]" and objs = "[0, 0]"]
    by (simp add: numeral_2_eq_2 upt_rec new_object_def)
qed

text \<open>
  A class whose call returns an object that exists already, as \<^verbatim>\<open>tuple()\<close> returns the
  one empty tuple: the object is false, so every call of the decorated class calls the
  class, and every call returns this same object.
\<close>

lemma singleton_falsy_interned:
  "run_singleton (\<lambda>x. (0::int) < x) (\<lambda>a k h. (Inr (Some 0), h))
      [([], []), ([], [])] \<lparr>heap = [0], instance = None\<rparr> =
     ([Inr (Some 0), Inr (Some 0)], \<lparr>heap = [0], instance = Some 0\<rparr>)"
  by (simp add: wrapper_singleton_def py_bool_def Let_def)

end
